theory Spec2Isabelle
  imports Complex_Main "HOL-Library.Multiset" "HOL-Library.Word"
begin

section \<open>Data model\<close>

text \<open>
  A point is a row \<open>[x, y]\<close> of the array; the sample array of \<open>main\<close> holds
  64-bit integers. The sweep is modelled on integer coordinates with exact arithmetic,
  which is what the array arithmetic computes as long as no product or sum of \<open>ccw\<close>
  leaves the 64-bit range. \<open>ccw64\<close> below is \<open>ccw\<close> on 64-bit integers with their
  wrap-around; the two agree whenever nothing overflows (\<open>ccw64_no_overflow\<close>), and so
  for all coordinates of magnitude below \<open>2^30\<close> (\<open>ccw64_ccw\<close>).
\<close>

type_synonym point = "int \<times> int"

text \<open>The exceptions the library raises in this program.\<close>

datatype error = ValueError | IndexError

subsection \<open>Indexing and slicing\<close>

definition py_index :: "'a list \<Rightarrow> int \<Rightarrow> error + 'a" where
  \<comment> \<open>\<open>a[i]\<close>: a negative index counts from the end; out of range raises IndexError.\<close>
  "py_index a i =
     (let n = int (length a) in
      if 0 \<le> i \<and> i < n then Inr (a ! nat i)
      else if - n \<le> i \<and> i < 0 then Inr (a ! nat (i + n))
      else Inl IndexError)"

definition py_update :: "'a list \<Rightarrow> int \<Rightarrow> 'a \<Rightarrow> error + 'a list" where
  \<comment> \<open>\<open>a[i] = v\<close>, with the same index rule.\<close>
  "py_update a i v =
     (let n = int (length a) in
      if 0 \<le> i \<and> i < n then Inr (a[nat i := v])
      else if - n \<le> i \<and> i < 0 then Inr (a[nat (i + n) := v])
      else Inl IndexError)"

definition py_bound :: "nat \<Rightarrow> int \<Rightarrow> nat" where
  \<comment> \<open>A slice bound: a negative bound counts from the end; both ends are clipped.\<close>
  "py_bound n k = (if k < 0 then nat (max (k + int n) 0) else min (nat k) n)"

definition py_slice :: "'a list \<Rightarrow> int \<Rightarrow> int \<Rightarrow> 'a list" where
  \<comment> \<open>\<open>a[lo:hi]\<close>; a slice never raises.\<close>
  "py_slice a lo hi = drop (py_bound (length a) lo) (take (py_bound (length a) hi) a)"

section \<open>swap\<close>

definition swap :: "'a list \<Rightarrow> int \<Rightarrow> int \<Rightarrow> error + 'a list" where
  "swap a li ri =
     (case py_index a li of Inl e \<Rightarrow> Inl e | Inr tmp \<Rightarrow>
      (case py_index a ri of Inl e \<Rightarrow> Inl e | Inr v \<Rightarrow>
       (case py_update a li v of Inl e \<Rightarrow> Inl e | Inr a' \<Rightarrow>
        py_update a' ri tmp)))"

section \<open>ccw\<close>

definition ccw :: "point \<Rightarrow> point \<Rightarrow> point \<Rightarrow> int" where
  "ccw p1 p2 p3 =
     (let dx1 = fst p2 - fst p1;
          dy1 = snd p2 - snd p1;
          dx2 = fst p3 - fst p1;
          dy2 = snd p3 - snd p1;
          dx1dy2 = dx1 * dy2;
          dy1dx2 = dy1 * dx2
      in if dx1dy2 > dy1dx2 then 1
         else if dx1dy2 < dy1dx2 then - 1
         else if dx1 * dx2 < 0 \<or> dy1 * dy2 < 0 then - 1
         else if dx1 * dx1 + dy1 * dy1 < dx2 * dx2 + dy2 * dy2 then 1
         else 0)"

text \<open>
  The same function on 64-bit integers: subtraction, multiplication and addition wrap
  around, and the comparisons read the results as signed values.
\<close>

type_synonym point64 = "64 word \<times> 64 word"

definition ccw64 :: "point64 \<Rightarrow> point64 \<Rightarrow> point64 \<Rightarrow> int" where
  "ccw64 p1 p2 p3 =
     (let dx1 = fst p2 - fst p1;
          dy1 = snd p2 - snd p1;
          dx2 = fst p3 - fst p1;
          dy2 = snd p3 - snd p1;
          dx1dy2 = dx1 * dy2;
          dy1dx2 = dy1 * dx2
      in if sint dx1dy2 > sint dy1dx2 then 1
         else if sint dx1dy2 < sint dy1dx2 then - 1
         else if sint (dx1 * dx2) < 0 \<or> sint (dy1 * dy2) < 0 then - 1
         else if sint (dx1 * dx1 + dy1 * dy1) < sint (dx2 * dx2 + dy2 * dy2) then 1
         else 0)"

definition to_int64 :: "point \<Rightarrow> point64" where
  "to_int64 p = (word_of_int (fst p), word_of_int (snd p))"

definition small :: "point \<Rightarrow> bool" where
  "small p \<longleftrightarrow> \<bar>fst p\<bar> < 2 ^ 30 \<and> \<bar>snd p\<bar> < 2 ^ 30"


definition in_int64 :: "int \<Rightarrow> bool" where
  "in_int64 v \<longleftrightarrow> - (2 ^ 63) \<le> v \<and> v < 2 ^ 63"

definition no_overflow :: "point \<Rightarrow> point \<Rightarrow> point \<Rightarrow> bool" where
  \<comment> \<open>The values that \<open>ccw\<close> compares fit in 64 bits.\<close>
  "no_overflow p1 p2 p3 =
     (let dx1 = fst p2 - fst p1; dy1 = snd p2 - snd p1;
          dx2 = fst p3 - fst p1; dy2 = snd p3 - snd p1
      in in_int64 (dx1 * dy2) \<and> in_int64 (dy1 * dx2)
         \<and> in_int64 (dx1 * dx2) \<and> in_int64 (dy1 * dy2)
         \<and> in_int64 (dx1 * dx1 + dy1 * dy1) \<and> in_int64 (dx2 * dx2 + dy2 * dy2))"

section \<open>extract_primary\<close>

fun argmin_scan :: "int list \<Rightarrow> nat \<Rightarrow> nat \<Rightarrow> int \<Rightarrow> nat" where
  \<comment> \<open>The scan of \<open>np.argmin\<close>: the first position of the smallest value.\<close>
  "argmin_scan [] i mi mv = mi"
| "argmin_scan (x # xs) i mi mv =
     (if x < mv then argmin_scan xs (Suc i) i x else argmin_scan xs (Suc i) mi mv)"

definition argmin :: "int list \<Rightarrow> error + nat" where
  \<comment> \<open>\<open>np.argmin\<close> raises ValueError on an empty array.\<close>
  "argmin a = (case a of [] \<Rightarrow> Inl ValueError | x # xs \<Rightarrow> Inr (argmin_scan xs 1 0 x))"

definition first_min :: "int list \<Rightarrow> nat \<Rightarrow> bool" where
  \<comment> \<open>\<open>k\<close> is the first position of the smallest value of \<open>a\<close>.\<close>
  "first_min a k \<longleftrightarrow>
     k < length a \<and> (\<forall>j < length a. a ! k \<le> a ! j) \<and> (\<forall>j < k. a ! k < a ! j)"

definition flatten :: "point list \<Rightarrow> int list" where
  \<comment> \<open>The array read in row-major order, as \<open>np.argmin\<close> with no axis reads it.\<close>
  "flatten points = concat (map (\<lambda>p. [fst p, snd p]) points)"

definition extract_primary :: "point list \<Rightarrow> error + (point \<times> point list)" where
  "extract_primary points =
     (case argmin (flatten points) of Inl e \<Rightarrow> Inl e | Inr min_point_idx \<Rightarrow>
      (case py_index points (int min_point_idx) of Inl e \<Rightarrow> Inl e | Inr primary \<Rightarrow>
       Inr (primary,
            py_slice points 0 (int min_point_idx)
            @ py_slice points (int min_point_idx + 1) (int (length points)))))"

section \<open>sort_for_graham_scan\<close>

text \<open>
  The slopes are float64 values: \<open>v[1] / v[0]\<close> on array elements is a true division
  that raises nothing; a zero divisor gives an infinity or a NaN. The quotient of two
  integers is kept exactly, as a rational; the rounding of the quotient to float64 is
  not modelled. Two slopes that differ as rationals and round to the same float64 value
  are equal for the program and different for the model; this needs coordinates above
  \<open>2^26\<close>, and the inputs evaluated below have slopes far apart.
\<close>

datatype slope = NegInf | Finite rat | PosInf | NaN

definition true_divide :: "int \<Rightarrow> int \<Rightarrow> slope" where
  "true_divide a b =
     (if b = 0 then (if 0 < a then PosInf else if a < 0 then NegInf else NaN)
      else Finite (of_int a / of_int b))"

text \<open>The order in which the library sorts float64 values: ascending, every NaN last.\<close>

fun slope_rank :: "slope \<Rightarrow> nat" where
  "slope_rank NegInf = 0"
| "slope_rank (Finite r) = 1"
| "slope_rank PosInf = 2"
| "slope_rank NaN = 3"

fun slope_le :: "slope \<Rightarrow> slope \<Rightarrow> bool" where
  "slope_le (Finite r) (Finite s) = (r \<le> s)"
| "slope_le a b = (slope_rank a \<le> slope_rank b)"

instantiation slope :: linorder
begin

definition less_eq_slope :: "slope \<Rightarrow> slope \<Rightarrow> bool" where
  "less_eq_slope a b = slope_le a b"

definition less_slope :: "slope \<Rightarrow> slope \<Rightarrow> bool" where
  "less_slope a b = (slope_le a b \<and> \<not> slope_le b a)"

instance
proof
  fix x y z :: slope
  show "(x < y) = (x \<le> y \<and> \<not> y \<le> x)"
    by (simp add: less_eq_slope_def less_slope_def)
  show "x \<le> x"
    by (cases x) (simp_all add: less_eq_slope_def)
  show "x \<le> y \<Longrightarrow> y \<le> z \<Longrightarrow> x \<le> z"
    by (cases x; cases y; cases z) (simp_all add: less_eq_slope_def)
  show "x \<le> y \<Longrightarrow> y \<le> x \<Longrightarrow> x = y"
    by (cases x; cases y) (simp_all add: less_eq_slope_def)
  show "x \<le> y \<or> y \<le> x"
    by (cases x; cases y) (auto simp: less_eq_slope_def)
qed

end

text \<open>
  \<open>np.argsort\<close> is called with its default kind, which the library does not promise to
  be stable. The program is therefore modelled over any \<open>argsort\<close> that keeps the
  library's contract: the result lists every index of the array once, and reading the
  array in that order is ascending.
\<close>

definition argsort_ok :: "(slope list \<Rightarrow> nat list) \<Rightarrow> bool" where
  "argsort_ok argsort \<longleftrightarrow>
     (\<forall>a. distinct (argsort a) \<and> set (argsort a) = {..<length a}
          \<and> sorted (map (\<lambda>i. a ! i) (argsort a)))"

definition stable_argsort :: "slope list \<Rightarrow> nat list" where
  \<comment> \<open>An insertion sort of the indices: equal values keep their order.\<close>
  "stable_argsort a = sort_key (\<lambda>i. a ! i) [0..<length a]"

definition point_slopes :: "point list \<Rightarrow> slope list" where
  "point_slopes points = map (\<lambda>v. true_divide (snd v) (fst v)) points"

definition sorted_points :: "(slope list \<Rightarrow> nat list) \<Rightarrow> point list \<Rightarrow> point list" where
  "sorted_points argsort points =
     (let sorted_indexes = argsort (point_slopes points)
      in map (\<lambda>i. points ! i) sorted_indexes)"

definition sort_for_graham_scan ::
  "(slope list \<Rightarrow> nat list) \<Rightarrow> point list \<Rightarrow> point \<Rightarrow> point list" where
  "sort_for_graham_scan argsort points primary =
     (let sorted = sorted_points argsort points
      in py_slice sorted (- 1) (int (length sorted)) @ [primary] @ sorted)"

section \<open>find_hull_vertices\<close>

function find_hull_vertices_while :: "point list \<Rightarrow> int \<Rightarrow> int \<Rightarrow> error + int" where
  \<comment> \<open>The inner \<open>while\<close> loop; the result is the value of \<open>M\<close> when it ends.\<close>
  "find_hull_vertices_while points M i =
     (case py_index points M of Inl e \<Rightarrow> Inl e | Inr pM \<Rightarrow>
      (case py_index points (M - 1) of Inl e \<Rightarrow> Inl e | Inr pM1 \<Rightarrow>
       (case py_index points i of Inl e \<Rightarrow> Inl e | Inr p_i \<Rightarrow>
        if ccw pM pM1 p_i \<ge> 0 then find_hull_vertices_while points (M - 1) i
        else Inr M)))"
  by pat_completeness auto
termination
  by (relation "measure (\<lambda>(points, M, i). nat (M + int (length points)))")
     (auto simp: py_index_def Let_def split: if_splits)

declare find_hull_vertices_while.simps [simp del]

fun find_hull_vertices_for ::
  "nat list \<Rightarrow> point list \<Rightarrow> int \<Rightarrow> error + (point list \<times> int)" where
  \<comment> \<open>The \<open>for\<close> loop over the values of \<open>i\<close> still to come.\<close>
  "find_hull_vertices_for [] points M = Inr (points, M)"
| "find_hull_vertices_for (i # rest) points M =
     (case find_hull_vertices_while points M (int i) of Inl e \<Rightarrow> Inl e | Inr M' \<Rightarrow>
      (case swap points (M' + 1) (int i) of Inl e \<Rightarrow> Inl e | Inr points' \<Rightarrow>
       find_hull_vertices_for rest points' (M' + 1)))"

definition find_hull_vertices :: "point list \<Rightarrow> error + point list" where
  "find_hull_vertices points =
     (let M = 3; N = length points in
      case find_hull_vertices_for [4..<N] points M of Inl e \<Rightarrow> Inl e
      | Inr (points', M') \<Rightarrow> Inr (py_slice points' 1 (M' + 1)))"

section \<open>graham_scan\<close>

definition graham_scan :: "(slope list \<Rightarrow> nat list) \<Rightarrow> point list \<Rightarrow> error + point list" where
  "graham_scan argsort points =
     (case extract_primary points of Inl e \<Rightarrow> Inl e | Inr (primary, remaining_points) \<Rightarrow>
      (let sorted_points = sort_for_graham_scan argsort remaining_points primary
       in find_hull_vertices sorted_points))"

section \<open>Properties stated by the specification\<close>

subsection \<open>The cascade of the orientation test\<close>





subsection \<open>The pivot rule\<close>

definition lex_less :: "point \<Rightarrow> point \<Rightarrow> bool" where
  "lex_less p q \<longleftrightarrow> fst p < fst q \<or> (fst p = fst q \<and> snd p < snd q)"

fun lex_min :: "point list \<Rightarrow> point option" where
  \<comment> \<open>The point that is smallest by x, then by y.\<close>
  "lex_min [] = None"
| "lex_min (p # ps) =
     (case lex_min ps of None \<Rightarrow> Some p
      | Some q \<Rightarrow> if lex_less q p then Some q else Some p)"

subsection \<open>Turns along a hull\<close>

definition hull_triples :: "point list \<Rightarrow> (point \<times> point \<times> point) list" where
  \<comment> \<open>The consecutive triples of a closed polygon, the wrap-around included.\<close>
  "hull_triples h =
     map (\<lambda>k. (h ! k, h ! ((k + 1) mod length h), h ! ((k + 2) mod length h)))
       [0..<length h]"

definition right_turns_walking :: "point list \<Rightarrow> (point \<times> point \<times> point) list" where
  \<comment> \<open>The triples \<open>(a, b, c)\<close> on which \<open>ccw a b c\<close> is 1.\<close>
  "right_turns_walking h = filter (\<lambda>(a, b, c). ccw a b c = 1) (hull_triples h)"

definition right_turns_sweep :: "point list \<Rightarrow> (point \<times> point \<times> point) list" where
  \<comment> \<open>The triples \<open>(a, b, c)\<close> on which the test is 1 with its arguments in the order
      the sweep gives them, \<open>(points[M], points[M - 1], points[i])\<close>.\<close>
  "right_turns_sweep h = filter (\<lambda>(a, b, c). ccw b a c = 1) (hull_triples h)"

subsection \<open>Inputs whose slopes are pairwise different\<close>

definition tie_free :: "point list \<Rightarrow> bool" where
  "tie_free points =
     (case extract_primary points of Inl e \<Rightarrow> True
      | Inr (primary, remaining_points) \<Rightarrow> distinct (point_slopes remaining_points))"

section \<open>Facts about the model\<close>

subsection \<open>Sorting\<close>

lemma stable_argsort_ok: "argsort_ok stable_argsort"
  unfolding argsort_ok_def stable_argsort_def
  by auto

lemma argsort_unique:
  assumes "argsort_ok f" "distinct a"
  shows "f a = stable_argsort a"
proof -
  let ?g = "\<lambda>i. a ! i"
  have f: "distinct (f a)" "set (f a) = {..<length a}" "sorted (map ?g (f a))"
    using assms(1) by (simp_all add: argsort_ok_def)
  have s: "distinct (stable_argsort a)" "set (stable_argsort a) = {..<length a}"
    "sorted (map ?g (stable_argsort a))"
    using stable_argsort_ok by (simp_all add: argsort_ok_def)
  have inj: "inj_on ?g {..<length a}"
    using assms(2) by (auto simp: inj_on_def nth_eq_iff_index_eq)
  have "map ?g (f a) = map ?g (stable_argsort a)"
  proof (rule sorted_distinct_set_unique)
    show "distinct (map ?g (f a))" using f inj by (simp add: distinct_map)
    show "distinct (map ?g (stable_argsort a))" using s inj by (simp add: distinct_map)
    show "set (map ?g (f a)) = set (map ?g (stable_argsort a))" using f s by simp
  qed (use f s in simp_all)
  then show ?thesis
    using inj f(2) s(2) by (simp add: inj_on_map_eq_map)
qed

lemma sorted_points_tie_free:
  "argsort_ok f \<Longrightarrow> distinct (point_slopes points) \<Longrightarrow>
   sorted_points f points = sorted_points stable_argsort points"
  by (simp add: sorted_points_def argsort_unique)

lemma graham_scan_tie_free:
  "argsort_ok f \<Longrightarrow> tie_free points \<Longrightarrow>
   graham_scan f points = graham_scan stable_argsort points"
  by (auto simp: graham_scan_def tie_free_def sort_for_graham_scan_def
      sorted_points_tie_free split: sum.splits)







subsection \<open>The pivot and the remaining points\<close>

lemma argmin_scan_first_min:
  assumes "first_min pre mi" "mv = pre ! mi" "i = length pre"
  shows "first_min (pre @ xs) (argmin_scan xs i mi mv)"
  using assms
proof (induction xs arbitrary: pre mi mv i)
  case Nil
  then show ?case by simp
next
  case (Cons x xs)
  show ?case
  proof (cases "x < mv")
    case True
    have "first_min (pre @ [x]) (length pre)"
      using Cons.prems True
      by (auto simp: first_min_def nth_append less_Suc_eq intro: less_le_trans le_less_trans)
    then have "first_min ((pre @ [x]) @ xs) (argmin_scan xs (Suc i) i x)"
      using Cons.prems by (intro Cons.IH) simp_all
    then show ?thesis
      using True by simp
  next
    case False
    have "first_min (pre @ [x]) mi"
      using Cons.prems False
      by (auto simp: first_min_def nth_append less_Suc_eq)
    then have "first_min ((pre @ [x]) @ xs) (argmin_scan xs (Suc i) mi mv)"
      using Cons.prems by (intro Cons.IH) (simp_all add: nth_append first_min_def)
    then show ?thesis
      using False by simp
  qed
qed

lemma argmin_first_min: "argmin a = Inr k \<Longrightarrow> first_min a k"
proof (cases a)
  case Nil
  assume "argmin a = Inr k"
  with Nil show ?thesis by (simp add: argmin_def)
next
  case (Cons x xs)
  assume "argmin a = Inr k"
  with Cons have k: "k = argmin_scan xs 1 0 x"
    by (simp add: argmin_def)
  have "first_min ([x] @ xs) (argmin_scan xs 1 0 x)"
    by (rule argmin_scan_first_min) (simp_all add: first_min_def)
  with k Cons show ?thesis by simp
qed

lemma py_slice_take: "py_slice a 0 (int k) = take k a"
  by (simp add: py_slice_def py_bound_def min_def)

lemma py_slice_drop: "py_slice a (int k + 1) (int (length a)) = drop (Suc k) a"
  by (simp add: py_slice_def py_bound_def min_def nat_add_distrib)

lemma extract_primary_row:
  assumes "extract_primary points = Inr (primary, remaining_points)"
  shows "\<exists>k. first_min (flatten points) k \<and> k < length points \<and> primary = points ! k
           \<and> remaining_points = take k points @ drop (Suc k) points"
proof -
  from assms obtain k where k: "argmin (flatten points) = Inr k"
    and p: "py_index points (int k) = Inr primary"
    and r: "remaining_points = py_slice points 0 (int k)
              @ py_slice points (int k + 1) (int (length points))"
    by (auto simp: extract_primary_def split: sum.splits)
  from p have "k < length points" "primary = points ! k"
    by (auto simp: py_index_def Let_def split: if_splits)
  with k r show ?thesis
    by (auto simp: py_slice_take py_slice_drop dest: argmin_first_min)
qed

subsection \<open>The backtracking loop\<close>

lemma while_ends_at_left_turn:
  "find_hull_vertices_while points M i = Inr M' \<Longrightarrow>
   M' \<le> M \<and> (\<exists>a b c. py_index points M' = Inr a \<and> py_index points (M' - 1) = Inr b
                 \<and> py_index points i = Inr c \<and> ccw a b c < 0)"
proof (induction points M i rule: find_hull_vertices_while.induct)
  case (1 points M i)
  from "1.prems" obtain a b c where r: "py_index points M = Inr a"
    "py_index points (M - 1) = Inr b" "py_index points i = Inr c"
    by (subst (asm) find_hull_vertices_while.simps) (auto split: sum.splits)
  show ?case
  proof (cases "ccw a b c \<ge> 0")
    case True
    with r "1.prems" have "find_hull_vertices_while points (M - 1) i = Inr M'"
      by (subst (asm) find_hull_vertices_while.simps) simp
    with "1.IH"[OF r True] show ?thesis
      by auto
  next
    case False
    with r "1.prems" have "M' = M"
      by (subst (asm) find_hull_vertices_while.simps) simp
    with r False show ?thesis
      by auto
  qed
qed

subsection \<open>Which errors can be raised\<close>

lemma py_index_error: "py_index a i = Inl e \<Longrightarrow> e = IndexError"
  by (auto simp: py_index_def Let_def split: if_splits)

lemma py_update_error: "py_update a i v = Inl e \<Longrightarrow> e = IndexError"
  by (auto simp: py_update_def Let_def split: if_splits)

lemma swap_error: "swap a li ri = Inl e \<Longrightarrow> e = IndexError"
  by (auto simp: swap_def split: sum.splits dest: py_index_error py_update_error)

lemma while_error: "find_hull_vertices_while points M i = Inl e \<Longrightarrow> e = IndexError"
proof (induction points M i rule: find_hull_vertices_while.induct)
  case (1 points M i)
  then show ?case
    by (subst (asm) (2) find_hull_vertices_while.simps)
       (auto split: sum.splits if_splits dest: py_index_error)
qed

lemma for_error: "find_hull_vertices_for is points M = Inl e \<Longrightarrow> e = IndexError"
  by (induction "is" arbitrary: points M)
     (auto split: sum.splits dest: while_error swap_error)

lemma find_hull_vertices_error: "find_hull_vertices points = Inl e \<Longrightarrow> e = IndexError"
  by (auto simp: find_hull_vertices_def Let_def split: sum.splits dest: for_error)

lemma flatten_Nil: "flatten points = [] \<longleftrightarrow> points = []"
  by (cases points) (simp_all add: flatten_def)

lemma extract_primary_ValueError: "extract_primary points = Inl ValueError \<longleftrightarrow> points = []"
proof
  assume "extract_primary points = Inl ValueError"
  then show "points = []"
    by (auto simp: extract_primary_def argmin_def flatten_Nil split: sum.splits list.splits
        dest: py_index_error)
next
  assume "points = []"
  then show "extract_primary points = Inl ValueError"
    by (simp add: extract_primary_def argmin_def flatten_def)
qed

subsection \<open>Fixed-width arithmetic\<close>

lemma sint_in_int64: "in_int64 a \<Longrightarrow> sint (word_of_int a :: 64 word) = a"
  by (simp add: in_int64_def signed_of_int signed_take_bit_int_eq_self_iff)


lemma ccw64_no_overflow:
  assumes "no_overflow p1 p2 p3"
  shows "ccw64 (to_int64 p1) (to_int64 p2) (to_int64 p3) = ccw p1 p2 p3"
proof -
  let ?dx1 = "fst p2 - fst p1" and ?dy1 = "snd p2 - snd p1"
  let ?dx2 = "fst p3 - fst p1" and ?dy2 = "snd p3 - snd p1"
  have r: "in_int64 (?dx1 * ?dy2)" "in_int64 (?dy1 * ?dx2)" "in_int64 (?dx1 * ?dx2)"
    "in_int64 (?dy1 * ?dy2)" "in_int64 (?dx1 * ?dx1 + ?dy1 * ?dy1)"
    "in_int64 (?dx2 * ?dx2 + ?dy2 * ?dy2)"
    using assms by (simp_all add: no_overflow_def Let_def)
  have w: "fst (to_int64 p2) - fst (to_int64 p1) = word_of_int ?dx1"
    "snd (to_int64 p2) - snd (to_int64 p1) = word_of_int ?dy1"
    "fst (to_int64 p3) - fst (to_int64 p1) = word_of_int ?dx2"
    "snd (to_int64 p3) - snd (to_int64 p1) = word_of_int ?dy2"
    by (simp_all add: to_int64_def)
  have m: "word_of_int a * word_of_int b = (word_of_int (a * b) :: 64 word)"
    "word_of_int a + word_of_int b = (word_of_int (a + b) :: 64 word)" for a b :: int
    by simp_all
  show ?thesis
    unfolding ccw64_def ccw_def Let_def w m
    by (simp only: r[THEN sint_in_int64])
qed

lemma prod_bound:
  fixes a b :: int
  assumes "\<bar>a\<bar> < 2 ^ 31" "\<bar>b\<bar> < 2 ^ 31"
  shows "\<bar>a * b\<bar> < 2 ^ 62"
proof -
  have "\<bar>a\<bar> * \<bar>b\<bar> < 2 ^ 31 * 2 ^ 31"
    using assms by (intro mult_strict_mono') simp_all
  then show ?thesis
    by (simp add: abs_mult)
qed

lemma small_no_overflow:
  assumes "small p1" "small p2" "small p3"
  shows "no_overflow p1 p2 p3"
proof -
  let ?dx1 = "fst p2 - fst p1" and ?dy1 = "snd p2 - snd p1"
  let ?dx2 = "fst p3 - fst p1" and ?dy2 = "snd p3 - snd p1"
  have b: "\<bar>?dx1\<bar> < 2 ^ 31" "\<bar>?dy1\<bar> < 2 ^ 31" "\<bar>?dx2\<bar> < 2 ^ 31" "\<bar>?dy2\<bar> < 2 ^ 31"
    using assms by (auto simp: small_def abs_less_iff)
  have p: "\<bar>?dx1 * ?dy2\<bar> < 2 ^ 62" "\<bar>?dy1 * ?dx2\<bar> < 2 ^ 62" "\<bar>?dx1 * ?dx2\<bar> < 2 ^ 62"
    "\<bar>?dy1 * ?dy2\<bar> < 2 ^ 62" "\<bar>?dx1 * ?dx1\<bar> < 2 ^ 62" "\<bar>?dy1 * ?dy1\<bar> < 2 ^ 62"
    "\<bar>?dx2 * ?dx2\<bar> < 2 ^ 62" "\<bar>?dy2 * ?dy2\<bar> < 2 ^ 62"
    by (rule prod_bound[OF b(1) b(4)], rule prod_bound[OF b(2) b(3)],
        rule prod_bound[OF b(1) b(3)], rule prod_bound[OF b(2) b(4)],
        rule prod_bound[OF b(1) b(1)], rule prod_bound[OF b(2) b(2)],
        rule prod_bound[OF b(3) b(3)], rule prod_bound[OF b(4) b(4)])
  have q: "in_int64 v" if "\<bar>v\<bar> < 2 ^ 62" for v :: int
    using that by (simp add: in_int64_def abs_less_iff)
  have s: "in_int64 (u + v)" if "\<bar>u\<bar> < 2 ^ 62" "\<bar>v\<bar> < 2 ^ 62" for u v :: int
    using that by (simp add: in_int64_def abs_less_iff)
  show ?thesis
    unfolding no_overflow_def Let_def
    by (intro conjI q s p)
qed

lemma ccw64_ccw:
  assumes "small p1" "small p2" "small p3"
  shows "ccw64 (to_int64 p1) (to_int64 p2) (to_int64 p3) = ccw p1 p2 p3"
  using assms by (intro ccw64_no_overflow small_no_overflow)

subsection \<open>Signs\<close>



section \<open>The claims\<close>

text \<open>
  C1. For the sample array of \<open>main\<close>, \<open>graham_scan\<close> returns the hull
  \<open>[1,1], [5,2], [6,3], [4,4], [2,5]\<close>, in that order. The slopes of the sample are
  pairwise different, so the result is the same for every \<open>argsort\<close> that keeps the
  contract.
\<close>

theorem graham_scan_sample:
  assumes "argsort_ok argsort"
  shows "graham_scan argsort [(1,1),(2,5),(3,2),(4,4),(5,2),(6,3),(2,3),(3,4),(5,3)]
         = Inr [(1,1),(5,2),(6,3),(4,4),(2,5)]"
proof -
  let ?points = "[(1,1),(2,5),(3,2),(4,4),(5,2),(6,3),(2,3),(3,4),(5,3)] :: point list"
  have "tie_free ?points"
    by code_simp
  then have "graham_scan argsort ?points = graham_scan stable_argsort ?points"
    using assms by (rule graham_scan_tie_free[rotated])
  also have "\<dots> = Inr [(1,1),(5,2),(6,3),(4,4),(2,5)]"
    by code_simp
  finally show ?thesis .
qed

theorem graham_scan_sample_witness:
  "argsort_ok stable_argsort \<and>
   graham_scan stable_argsort [(1,1),(2,5),(3,2),(4,4),(5,2),(6,3),(2,3),(3,4),(5,3)]
   = Inr [(1,1),(5,2),(6,3),(4,4),(2,5)]"
  using stable_argsort_ok graham_scan_sample[OF stable_argsort_ok] by simp




text \<open>
  C3. The claim: the pivot is the point that is smallest by x, then by y, and the
  remaining sequence is the input without it. \<open>extract_primary\<close> takes the position of
  the smallest coordinate in the flattened array and uses it as a row number: on
  \<open>[[2,3],[1,5],[4,4]]\<close> the smallest coordinate is at flat position 2, so the pivot
  returned is row 2, \<open>[4,4]\<close>, while the smallest point is \<open>[1,5]\<close>. In
  general (\<open>extract_primary_row\<close>) the pivot is the row numbered by the first position of
  the smallest coordinate, when there is such a row, and the remaining points are the other
  rows in their order.
\<close>

theorem extract_primary_flat_index:
  "extract_primary [(2,3),(1,5),(4,4)] = Inr ((4,4), [(2,3),(1,5)])
   \<and> lex_min [(2,3),(1,5),(4,4)] = Some (1,5)"
  by code_simp

text \<open>
  C4. On the empty input the hull computation fails: \<open>np.argmin\<close> raises ValueError
  (the EmptyInputError of the specification) in \<open>extract_primary\<close>, nothing catches it,
  and \<open>graham_scan\<close> passes it to its caller. No other input raises this error.
\<close>

theorem graham_scan_empty:
  "graham_scan argsort points = Inl ValueError \<longleftrightarrow> points = []"
proof
  assume "graham_scan argsort points = Inl ValueError"
  then show "points = []"
    by (auto simp: graham_scan_def Let_def extract_primary_ValueError
        split: sum.splits dest: find_hull_vertices_error)
next
  assume "points = []"
  then show "graham_scan argsort points = Inl ValueError"
    by (simp add: graham_scan_def extract_primary_def argmin_def flatten_def)
qed




text \<open>
  C6. The claim: the backtracking loop decrements \<open>M\<close> only while \<open>M > 1\<close>, so
  \<open>M\<close> is at least 1 and the reads \<open>points[M]\<close> and \<open>points[M - 1]\<close> stay at or
  after the pivot. The loop of \<open>find_hull_vertices\<close> tests the orientation only. On
  \<open>[[1,5],[2,3],[5,1],[4,4],[2,1],[3,2]]\<close> the pivot is \<open>[1,5]\<close>, the working array is
  \<open>[[2,3],[1,5],[5,1],[2,1],[3,2],[4,4],[2,3]]\<close>, and the first backtracking, at
  \<open>i = 4\<close>, ends with \<open>M = -1\<close>: it has read the pivot, the sentinel and, through
  negative indices, the end of the array. The hull returned is \<open>[4,4], [2,3]\<close>. On
  \<open>[[1,5],[3,3],[5,4],[2,3],[3,4]]\<close> the cursor falls until the read is out of range
  and raises IndexError.
\<close>

theorem cursor_below_one:
  assumes "argsort_ok argsort"
  shows "extract_primary [(1,5),(2,3),(5,1),(4,4),(2,1),(3,2)]
           = Inr ((1,5), [(2,3),(5,1),(4,4),(2,1),(3,2)])
       \<and> sort_for_graham_scan argsort [(2,3),(5,1),(4,4),(2,1),(3,2)] (1,5)
           = [(2,3),(1,5),(5,1),(2,1),(3,2),(4,4),(2,3)]
       \<and> find_hull_vertices_while [(2,3),(1,5),(5,1),(2,1),(3,2),(4,4),(2,3)] 3 4 = Inr (- 1)
       \<and> graham_scan argsort [(1,5),(2,3),(5,1),(4,4),(2,1),(3,2)] = Inr [(4,4),(2,3)]
       \<and> graham_scan argsort [(1,5),(3,3),(5,4),(2,3),(3,4)] = Inl IndexError"
proof -
  let ?points = "[(1,5),(2,3),(5,1),(4,4),(2,1),(3,2)] :: point list"
  let ?rest = "[(2,3),(5,1),(4,4),(2,1),(3,2)] :: point list"
  have e: "extract_primary ?points = Inr ((1,5), ?rest)"
    by code_simp
  have "distinct (point_slopes ?rest)"
    by code_simp
  then have "sorted_points argsort ?rest = sorted_points stable_argsort ?rest"
    using assms by (rule sorted_points_tie_free[rotated])
  then have "sort_for_graham_scan argsort ?rest (1,5)
             = sort_for_graham_scan stable_argsort ?rest (1,5)"
    by (simp add: sort_for_graham_scan_def)
  also have "\<dots> = [(2,3),(1,5),(5,1),(2,1),(3,2),(4,4),(2,3)]"
    by code_simp
  finally have s: "sort_for_graham_scan argsort ?rest (1,5)
                   = [(2,3),(1,5),(5,1),(2,1),(3,2),(4,4),(2,3)]" .
  have w: "find_hull_vertices_while [(2,3),(1,5),(5,1),(2,1),(3,2),(4,4),(2,3)] 3 4 = Inr (- 1)"
    by code_simp
  have "find_hull_vertices [(2,3),(1,5),(5,1),(2,1),(3,2),(4,4),(2,3)] = Inr [(4,4),(2,3)]"
    by code_simp
  with e s have g: "graham_scan argsort ?points = Inr [(4,4),(2,3)]"
    by (simp add: graham_scan_def)
  have "tie_free [(1,5),(3,3),(5,4),(2,3),(3,4)]"
    by code_simp
  then have "graham_scan argsort [(1,5),(3,3),(5,4),(2,3),(3,4)]
             = graham_scan stable_argsort [(1,5),(3,3),(5,4),(2,3),(3,4)]"
    using assms by (rule graham_scan_tie_free[rotated])
  also have "\<dots> = Inl IndexError"
    by code_simp
  finally have x: "graham_scan argsort [(1,5),(3,3),(5,4),(2,3),(3,4)] = Inl IndexError" .
  from e s w g x show ?thesis
    by (intro conjI)
qed

theorem cursor_below_one_witness:
  "argsort_ok stable_argsort
   \<and> find_hull_vertices_while
        (sort_for_graham_scan stable_argsort [(2,3),(5,1),(4,4),(2,1),(3,2)] (1,5)) 3 4
       = Inr (- 1)
   \<and> graham_scan stable_argsort [(1,5),(2,3),(5,1),(4,4),(2,1),(3,2)] = Inr [(4,4),(2,3)]"
  using stable_argsort_ok cursor_below_one[OF stable_argsort_ok] by simp

text \<open>
  C7. The claim: no consecutive triple of the returned hull, the wrap-around included,
  is a right-turn for the orientation test. On \<open>[[1,1],[5,2],[6,2],[2,1]]\<close> the hull
  returned is \<open>[1,1], [6,2], [5,2], [2,1]\<close>, a polygon that crosses itself. The test
  reports a right-turn (the result 1) on two of its triples when its arguments are given
  in the order of the sweep, \<open>(points[M], points[M - 1], points[i])\<close>, and on the two
  other triples when they are given in walking order.
\<close>

theorem hull_with_right_turns:
  assumes "argsort_ok argsort"
  shows "graham_scan argsort [(1,1),(5,2),(6,2),(2,1)] = Inr [(1,1),(6,2),(5,2),(2,1)]
       \<and> right_turns_sweep [(1,1),(6,2),(5,2),(2,1)]
           = [((5,2),(2,1),(1,1)), ((2,1),(1,1),(6,2))]
       \<and> right_turns_walking [(1,1),(6,2),(5,2),(2,1)]
           = [((1,1),(6,2),(5,2)), ((6,2),(5,2),(2,1))]"
proof -
  let ?points = "[(1,1),(5,2),(6,2),(2,1)] :: point list"
  have "tie_free ?points"
    by code_simp
  then have "graham_scan argsort ?points = graham_scan stable_argsort ?points"
    using assms by (rule graham_scan_tie_free[rotated])
  also have "\<dots> = Inr [(1,1),(6,2),(5,2),(2,1)]"
    by code_simp
  finally have g: "graham_scan argsort ?points = Inr [(1,1),(6,2),(5,2),(2,1)]" .
  have s: "right_turns_sweep [(1,1),(6,2),(5,2),(2,1)]
           = [((5,2),(2,1),(1,1)), ((2,1),(1,1),(6,2))]"
    by code_simp
  have w: "right_turns_walking [(1,1),(6,2),(5,2),(2,1)]
           = [((1,1),(6,2),(5,2)), ((6,2),(5,2),(2,1))]"
    by code_simp
  from g s w show ?thesis
    by (intro conjI)
qed

theorem hull_with_right_turns_witness:
  "argsort_ok stable_argsort
   \<and> graham_scan stable_argsort [(1,1),(5,2),(6,2),(2,1)] = Inr [(1,1),(6,2),(5,2),(2,1)]
   \<and> ccw (2,1) (5,2) (1,1) = 1 \<and> ccw (1,1) (6,2) (5,2) = 1"
proof -
  have "ccw (2,1) (5,2) (1,1) = 1" and "ccw (1,1) (6,2) (5,2) = 1"
    by (simp_all add: ccw_def)
  with stable_argsort_ok hull_with_right_turns[OF stable_argsort_ok] show ?thesis
    by simp
qed

text \<open>
  C8. The claim: the first point of the returned hull is the point that is smallest by
  x, then by y. On \<open>[[2,3],[1,5],[4,4]]\<close> the hull starts with \<open>[4,4]\<close> and the
  smallest point is \<open>[1,5]\<close>. On \<open>[[1,5],[2,3],[5,1],[4,4],[2,1],[3,2]]\<close> the pivot
  \<open>[1,5]\<close> is chosen, the sweep swaps it out of position 1, and the hull returned,
  \<open>[4,4], [2,3]\<close>, does not hold it. On the single point \<open>[[1,1]]\<close> the hull returned
  is empty.
\<close>

theorem hull_first_is_not_pivot:
  assumes "argsort_ok argsort"
  shows "graham_scan argsort [(2,3),(1,5),(4,4)] = Inr [(4,4),(2,3),(1,5)]
       \<and> lex_min [(2,3),(1,5),(4,4)] = Some (1,5)
       \<and> graham_scan argsort [(1,5),(2,3),(5,1),(4,4),(2,1),(3,2)] = Inr [(4,4),(2,3)]
       \<and> lex_min [(1,5),(2,3),(5,1),(4,4),(2,1),(3,2)] = Some (1,5)
       \<and> graham_scan argsort [(1,1)] = Inr []"
proof -
  have t: "tie_free [(2,3),(1,5),(4,4)]" "tie_free [(1,5),(2,3),(5,1),(4,4),(2,1),(3,2)]"
    "tie_free [(1,1)]"
    by code_simp+
  have a: "graham_scan stable_argsort [(2,3),(1,5),(4,4)] = Inr [(4,4),(2,3),(1,5)]"
    by code_simp
  have b: "graham_scan stable_argsort [(1,5),(2,3),(5,1),(4,4),(2,1),(3,2)] = Inr [(4,4),(2,3)]"
    by code_simp
  have c: "graham_scan stable_argsort [(1,1)] = Inr []"
    by code_simp
  have l: "lex_min [(2,3),(1,5),(4,4)] = Some (1,5)"
    "lex_min [(1,5),(2,3),(5,1),(4,4),(2,1),(3,2)] = Some (1,5)"
    by code_simp+
  from a b c l show ?thesis
    by (simp add: graham_scan_tie_free[OF assms] t)
qed

theorem hull_first_is_not_pivot_witness:
  "argsort_ok stable_argsort
   \<and> graham_scan stable_argsort [(2,3),(1,5),(4,4)] = Inr [(4,4),(2,3),(1,5)]
   \<and> lex_min [(2,3),(1,5),(4,4)] = Some (1,5)"
  using stable_argsort_ok hull_first_is_not_pivot[OF stable_argsort_ok] by simp

text \<open>
  C10. The claim: the hull of a returned hull is that hull again, with the same first
  point and the same order. On \<open>[[3,3],[2,3],[3,2]]\<close> the hull returned is
  \<open>[3,2], [3,3], [2,3]\<close>, and the hull of that is \<open>[3,3], [3,2], [2,3]\<close>. On
  \<open>[[2,3],[1,5],[4,4]]\<close> the hull returned is \<open>[4,4], [2,3], [1,5]\<close>, and the hull
  computation on that raises IndexError.
\<close>

theorem hull_of_hull_differs:
  assumes "argsort_ok argsort"
  shows "graham_scan argsort [(3,3),(2,3),(3,2)] = Inr [(3,2),(3,3),(2,3)]
       \<and> graham_scan argsort [(3,2),(3,3),(2,3)] = Inr [(3,3),(3,2),(2,3)]
       \<and> graham_scan argsort [(2,3),(1,5),(4,4)] = Inr [(4,4),(2,3),(1,5)]
       \<and> graham_scan argsort [(4,4),(2,3),(1,5)] = Inl IndexError"
proof -
  have t: "tie_free [(3,3),(2,3),(3,2)]" "tie_free [(3,2),(3,3),(2,3)]"
    "tie_free [(2,3),(1,5),(4,4)]" "tie_free [(4,4),(2,3),(1,5)]"
    by code_simp+
  have a: "graham_scan stable_argsort [(3,3),(2,3),(3,2)] = Inr [(3,2),(3,3),(2,3)]"
    by code_simp
  have b: "graham_scan stable_argsort [(3,2),(3,3),(2,3)] = Inr [(3,3),(3,2),(2,3)]"
    by code_simp
  have c: "graham_scan stable_argsort [(2,3),(1,5),(4,4)] = Inr [(4,4),(2,3),(1,5)]"
    by code_simp
  have d: "graham_scan stable_argsort [(4,4),(2,3),(1,5)] = Inl IndexError"
    by code_simp
  from a b c d show ?thesis
    by (simp add: graham_scan_tie_free[OF assms] t)
qed

theorem hull_of_hull_differs_witness:
  "argsort_ok stable_argsort
   \<and> graham_scan stable_argsort [(3,3),(2,3),(3,2)] = Inr [(3,2),(3,3),(2,3)]
   \<and> graham_scan stable_argsort [(3,2),(3,3),(2,3)] = Inr [(3,3),(3,2),(2,3)]"
  using stable_argsort_ok hull_of_hull_differs[OF stable_argsort_ok] by simp

end
